theory Spec2Isabelle
  imports Complex_Main
begin

section \<open>Data model of \<open>src/app/page.tsx\<close>\<close>

text \<open>
  The photobooth is one React component. Its \<open>useState\<close> cells are the fields of
  the record \<open>state\<close> below, its callbacks are functions from state to state, and the
  browser capabilities it calls (the video element, the 2d contexts, the clock, the timers,
  the image decoder) are explicit inputs.

  JavaScript numbers are modelled as exact rationals (\<open>rat\<close>): the sizes and offsets
  of the layout are integers, halves and thirds of integers, and their products with an
  index. Array indices and the completion counter are natural numbers. A state updater
  runs once for each call that schedules it. The smoothing flags of the 2d contexts and the
  \<open>crossOrigin\<close> attribute of the images change nothing that is modelled here.
\<close>

datatype Screen = Screen_start | Screen_template | Screen_camera | Screen_preview

datatype Template = Strip | Grid | Collage | Single

record CapturedPhoto =
  photo_id :: string
  dataUrl :: string
  timestamp :: int

record template_entry =
  t_id :: Template
  t_name :: string
  t_description :: string
  photoCount :: int

definition templates :: "template_entry list" where
  "templates =
    [\<lparr>t_id = Strip, t_name = ''Photo Strip'', t_description = ''3 vertical photos'', photoCount = 3\<rparr>,
     \<lparr>t_id = Grid, t_name = ''Grid Layout'', t_description = ''2x2 photo grid'', photoCount = 4\<rparr>,
     \<lparr>t_id = Collage, t_name = ''Collage Style'', t_description = ''Creative layout'', photoCount = 3\<rparr>,
     \<lparr>t_id = Single, t_name = ''Single Shot'', t_description = ''One large photo'', photoCount = 1\<rparr>]"

record background_entry =
  b_id :: string
  b_name :: string
  color :: string

definition backgrounds :: "background_entry list" where
  "backgrounds =
    [\<lparr>b_id = ''white'', b_name = ''White'', color = ''#ffffff''\<rparr>,
     \<lparr>b_id = ''black'', b_name = ''Black'', color = ''#000000''\<rparr>,
     \<lparr>b_id = ''gray'', b_name = ''Gray'', color = ''#6b7280''\<rparr>,
     \<lparr>b_id = ''pattern'', b_name = ''Pattern'',
      color = ''repeating-linear-gradient(45deg, #000 0px, #000 10px, #fff 10px, #fff 20px)''\<rparr>]"

record style =
  borderWidth :: rat
  spacing :: rat
  cornerRadius :: rat

section \<open>The raster surface\<close>

text \<open>
  A canvas is its size and the drawing calls made on its 2d context, oldest first. Its
  pixel \<open>(m, n)\<close> is the unit square \<open>[m, m + 1) \<times> [n, n + 1)\<close>. A call paints the
  rectangle \<open>[x, x + w) \<times> [y, y + h)\<close> with an opaque source, a fill colour or a photo:
  a pixel that lies in the rectangle entirely takes the colour of the source, a pixel that
  the rectangle does not meet keeps its colour, and a pixel that the rectangle covers in
  part gets the source mixed into its colour in proportion to the part covered. The mixture
  is kept as the term \<open>Blend source part old\<close> and not computed, and the colour a photo
  gives to a pixel is kept as the term \<open>PhotoSample\<close>: two canvases that are equal here
  are equal whatever the arithmetic of the rasteriser and the content of the photos. A
  size that is not positive paints nothing; the layout gives none for a spacing the slider
  can give.
\<close>

datatype colour = Transparent | Css string | PhotoSample string rat rat | Blend colour rat colour

type_synonym tile_call = "string \<times> rat \<times> rat \<times> rat \<times> rat"

record pattern_canvas =
  p_width :: rat
  p_height :: rat
  p_calls :: "tile_call list"

datatype fill_style = Colour string | Pattern pattern_canvas

datatype call =
  FillRect fill_style rat rat rat rat
  | DrawImage string rat rat rat rat

record canvas =
  c_width :: rat
  c_height :: rat
  calls :: "call list"

definition covers :: "rat \<Rightarrow> rat \<Rightarrow> rat \<Rightarrow> rat \<Rightarrow> rat \<Rightarrow> rat \<Rightarrow> bool" where
  "covers x y w h px py = (x \<le> px \<and> px < x + w \<and> y \<le> py \<and> py < y + h)"

fun tile_pixel :: "tile_call list \<Rightarrow> rat \<Rightarrow> rat \<Rightarrow> colour" where
  "tile_pixel [] px py = Transparent"
| "tile_pixel ((c, x, y, w, h) # older) px py =
     (if covers x y w h px py then Css c else tile_pixel older px py)"

definition wrap :: "rat \<Rightarrow> rat \<Rightarrow> rat" where
  "wrap period v = v - period * of_int \<lfloor>v / period\<rfloor>"

fun fill_colour :: "fill_style \<Rightarrow> int \<Rightarrow> int \<Rightarrow> colour" where
  "fill_colour (Colour c) m n = Css c"
| "fill_colour (Pattern t) m n =
     tile_pixel (rev (p_calls t)) (wrap (p_width t) (of_int m)) (wrap (p_height t) (of_int n))"

text \<open>The length of the part of \<open>[a, a + len)\<close> in \<open>[k, k + 1)\<close>, and the part of a pixel
  that a rectangle covers.\<close>

definition overlap :: "rat \<Rightarrow> rat \<Rightarrow> int \<Rightarrow> rat" where
  "overlap a len k = max 0 (min (a + len) (of_int k + 1) - max a (of_int k))"

definition coverage :: "rat \<Rightarrow> rat \<Rightarrow> rat \<Rightarrow> rat \<Rightarrow> int \<Rightarrow> int \<Rightarrow> rat" where
  "coverage x y w h m n = overlap x w m * overlap y h n"

definition mix :: "colour \<Rightarrow> rat \<Rightarrow> colour \<Rightarrow> colour" where
  "mix source part old =
     (if part = 1 then source else if part = 0 then old else Blend source part old)"

fun paint :: "call \<Rightarrow> int \<Rightarrow> int \<Rightarrow> colour \<Rightarrow> colour" where
  "paint (FillRect st x y w h) m n old = mix (fill_colour st m n) (coverage x y w h m n) old"
| "paint (DrawImage d x y w h) m n old =
     mix (PhotoSample d ((of_int m + 1 / 2 - x) / w) ((of_int n + 1 / 2 - y) / h))
       (coverage x y w h m n) old"

definition pixel :: "canvas \<Rightarrow> int \<Rightarrow> int \<Rightarrow> colour" where
  "pixel cv m n =
     (if 0 \<le> m \<and> of_int m < c_width cv \<and> 0 \<le> n \<and> of_int n < c_height cv
      then foldl (\<lambda>c op. paint op m n c) Transparent (calls cv) else Transparent)"

definition fillRect :: "fill_style \<Rightarrow> rat \<Rightarrow> rat \<Rightarrow> rat \<Rightarrow> rat \<Rightarrow> canvas \<Rightarrow> canvas" where
  "fillRect st x y w h cv = cv\<lparr>calls := calls cv @ [FillRect st x y w h]\<rparr>"

definition drawImage :: "string \<Rightarrow> rat \<Rightarrow> rat \<Rightarrow> rat \<Rightarrow> rat \<Rightarrow> canvas \<Rightarrow> canvas" where
  "drawImage img x y w h cv = cv\<lparr>calls := calls cv @ [DrawImage img x y w h]\<rparr>"

text \<open>
  The result of \<open>canvas.toDataURL("image/jpeg", 1.0)\<close>: the encoded picture, that is
  the size of the canvas and what it shows. \<open>Empty_url\<close> is the empty string.
\<close>

datatype encoded = Empty_url | Jpeg rat rat "int \<Rightarrow> int \<Rightarrow> colour"

definition toDataURL :: "canvas \<Rightarrow> encoded" where
  "toDataURL cv = Jpeg (c_width cv) (c_height cv) (pixel cv)"

section \<open>The layout compositor: \<open>generateFinalImage\<close>\<close>

record rect =
  r_x :: rat
  r_y :: rat
  r_width :: rat
  r_height :: rat

text \<open>The \<open>switch (selectedTemplate)\<close> of the load handler (lines 177 to 214).\<close>

fun placement :: "Template \<Rightarrow> nat \<Rightarrow> rat \<Rightarrow> rat \<Rightarrow> rat \<Rightarrow> rect" where
  "placement Strip index cw ch sp =
     (let width = cw - sp * 4;
          height = (ch - sp * 8) / 3;
          x = sp * 2;
          y = sp * 2 + (height + sp * 2) * of_nat index
      in \<lparr>r_x = x, r_y = y, r_width = width, r_height = height\<rparr>)"
| "placement Grid index cw ch sp =
     (let width = (cw - sp * 6) / 2;
          height = (ch - sp * 6) / 2;
          x = sp * 2 + (width + sp * 2) * of_nat (index mod 2);
          y = sp * 2 + (height + sp * 2) * of_nat (index div 2)
      in \<lparr>r_x = x, r_y = y, r_width = width, r_height = height\<rparr>)"
| "placement Collage index cw ch sp =
     (if index = 0 then
        (let width = cw / 2 - sp * 2;
             height = ch - sp * 4;
             x = sp * 2;
             y = sp * 2
         in \<lparr>r_x = x, r_y = y, r_width = width, r_height = height\<rparr>)
      else
        (let width = cw / 2 - sp * 2;
             height = (ch - sp * 6) / 2;
             x = cw / 2 + sp;
             y = sp * 2 + (height + sp * 2) * (of_nat index - 1)
         in \<lparr>r_x = x, r_y = y, r_width = width, r_height = height\<rparr>))"
| "placement Single index cw ch sp =
     (let width = cw - sp * 4;
          height = ch - sp * 4;
          x = sp * 2;
          y = sp * 2
      in \<lparr>r_x = x, r_y = y, r_width = width, r_height = height\<rparr>)"

text \<open>
  \<open>createPatternCanvas\<close> (lines 240 to 254); the argument says whether the tile's
  \<open>getContext("2d")\<close> gave a context.
\<close>

definition createPatternCanvas :: "bool \<Rightarrow> pattern_canvas" where
  "createPatternCanvas patternCtx =
     \<lparr>p_width = 20, p_height = 20,
      p_calls = (if patternCtx then
         [(''#000000'', 0, 0, 10, 10), (''#000000'', 10, 10, 10, 10),
          (''#ffffff'', 10, 0, 10, 10), (''#ffffff'', 0, 10, 10, 10)]
       else [])\<rparr>"

text \<open>What the browser gives \<open>generateFinalImage\<close>: the three capabilities that may be null.\<close>

record surface_env =
  ctx2d :: bool
  patternCtx2d :: bool
  createPattern_ok :: bool

text \<open>
  The closure the load handlers share: the values captured from the component, the canvas,
  the counter \<open>loadedCount\<close>, \<open>totalImages\<close>, and the promise (\<open>None\<close> while
  pending, \<open>Some u\<close> once resolved with \<open>u\<close>).
\<close>

record job =
  j_template :: Template
  j_photos :: "CapturedPhoto list"
  j_style :: style
  j_canvas :: canvas
  loadedCount :: nat
  totalImages :: nat
  promise :: "encoded option"

text \<open>\<open>resolve\<close> of a promise: the first call settles it, later calls change nothing.\<close>

definition resolve :: "encoded \<Rightarrow> encoded option \<Rightarrow> encoded option" where
  "resolve u p = (case p of None \<Rightarrow> Some u | Some v \<Rightarrow> Some v)"

text \<open>
  The state after the promise executor has run (lines 135 to 237): either it resolved at
  once and registered nothing (\<open>Settled\<close>), or it prepared the canvas and left one load
  handler per photo waiting (\<open>Loading\<close>).
\<close>

datatype composing = Settled encoded | Loading job

definition applyBackground :: "surface_env \<Rightarrow> string \<Rightarrow> canvas \<Rightarrow> canvas" where
  "applyBackground env selectedBackground cv =
     (case find (\<lambda>b. b_id b = selectedBackground) backgrounds of
        None \<Rightarrow> cv
      | Some bg \<Rightarrow>
          (let fillStyle =
             (if b_id bg = ''pattern'' then
                (if createPattern_ok env then Pattern (createPatternCanvas (patternCtx2d env))
                 else Colour ''#ffffff'')
              else Colour (color bg))
           in fillRect fillStyle 0 0 (c_width cv) (c_height cv) cv))"

definition generateFinalImage ::
  "surface_env \<Rightarrow> Template option \<Rightarrow> CapturedPhoto list \<Rightarrow> string \<Rightarrow> style \<Rightarrow> composing" where
  "generateFinalImage env selectedTemplate capturedPhotos selectedBackground templateStyle =
     (case selectedTemplate of
        None \<Rightarrow> Settled Empty_url
      | Some t \<Rightarrow>
          if length capturedPhotos = 0 then Settled Empty_url
          else if \<not> ctx2d env then Settled Empty_url
          else
            (let cv = \<lparr>c_width = 1600, c_height = (if t = Strip then 2400 else 1600), calls = []\<rparr>;
                 cv = applyBackground env selectedBackground cv
             in Loading \<lparr>j_template = t, j_photos = capturedPhotos, j_style = templateStyle,
                  j_canvas = cv, loadedCount = 0, totalImages = length capturedPhotos,
                  promise = None\<rparr>))"

text \<open>
  \<open>img.onload\<close> of the photo at \<open>index\<close> (lines 176 to 234). A handler exists only for
  the indices of the sequence, so nothing happens at any other index.
\<close>

definition onload :: "job \<Rightarrow> nat \<Rightarrow> job" where
  "onload j index =
     (if index < length (j_photos j) then
        (let cv = j_canvas j;
             st = j_style j;
             r = placement (j_template j) index (c_width cv) (c_height cv) (spacing st);
             cv = (if borderWidth st > 0 then
                     fillRect (Colour ''#000000'')
                       (r_x r - borderWidth st * 2) (r_y r - borderWidth st * 2)
                       (r_width r + borderWidth st * 4) (r_height r + borderWidth st * 4) cv
                   else cv);
             cv = drawImage (dataUrl (j_photos j ! index)) (r_x r) (r_y r) (r_width r) (r_height r) cv;
             n = loadedCount j + 1
         in j\<lparr>j_canvas := cv, loadedCount := n,
              promise := (if n = totalImages j then resolve (toDataURL cv) (promise j)
                          else promise j)\<rparr>)
      else j)"

text \<open>The decodes complete in some order: the handlers run one after the other.\<close>

definition completions :: "job \<Rightarrow> nat list \<Rightarrow> job" where
  "completions j order = foldl onload j order"

definition settled :: "composing \<Rightarrow> encoded option" where
  "settled c = (case c of Settled u \<Rightarrow> Some u | Loading j \<Rightarrow> promise j)"

definition drawn :: "composing \<Rightarrow> call list" where
  "drawn c = (case c of Settled u \<Rightarrow> [] | Loading j \<Rightarrow> calls (j_canvas j))"

text \<open>
  The browser then fires the load handlers of the decoded photos, in the order the decodes
  complete. After a \<open>Settled\<close> executor there is no handler to fire.
\<close>

definition deliver :: "composing \<Rightarrow> nat list \<Rightarrow> composing" where
  "deliver c order = (case c of Settled u \<Rightarrow> Settled u | Loading j \<Rightarrow> Loading (completions j order))"

definition surface :: "composing \<Rightarrow> canvas option" where
  "surface c = (case c of Settled u \<Rightarrow> None | Loading j \<Rightarrow> Some (j_canvas j))"

text \<open>
  Names for what one load handler does: the rectangle of the photo, the rectangle of its
  border, the calls it makes and what they do to the colour of a pixel; whether a
  rectangle meets a pixel, whether it covers it entirely, and whether a point lies in it.
\<close>

definition photo_rect :: "job \<Rightarrow> nat \<Rightarrow> rect" where
  "photo_rect j index =
     placement (j_template j) index (c_width (j_canvas j)) (c_height (j_canvas j))
       (spacing (j_style j))"

definition border_rect :: "job \<Rightarrow> nat \<Rightarrow> rect" where
  "border_rect j index =
     (let r = photo_rect j index; b = borderWidth (j_style j)
      in \<lparr>r_x = r_x r - b * 2, r_y = r_y r - b * 2,
          r_width = r_width r + b * 4, r_height = r_height r + b * 4\<rparr>)"

definition handler_calls :: "job \<Rightarrow> nat \<Rightarrow> call list" where
  "handler_calls j index =
     (let r = photo_rect j index; f = border_rect j index
      in (if borderWidth (j_style j) > 0
          then [FillRect (Colour ''#000000'') (r_x f) (r_y f) (r_width f) (r_height f)]
          else []) @
         [DrawImage (dataUrl (j_photos j ! index)) (r_x r) (r_y r) (r_width r) (r_height r)])"



definition touches :: "rect \<Rightarrow> int \<Rightarrow> int \<Rightarrow> bool" where
  "touches r m n = (coverage (r_x r) (r_y r) (r_width r) (r_height r) m n \<noteq> 0)"

definition fills :: "rect \<Rightarrow> int \<Rightarrow> int \<Rightarrow> bool" where
  "fills r m n = (coverage (r_x r) (r_y r) (r_width r) (r_height r) m n = 1)"




text \<open>Inputs for the examples: every capability present, three photos.\<close>

definition example_env :: surface_env where
  "example_env = \<lparr>ctx2d = True, patternCtx2d = True, createPattern_ok = True\<rparr>"

definition example_photos :: "CapturedPhoto list" where
  "example_photos =
     [\<lparr>photo_id = ''1'', dataUrl = ''a'', timestamp = 1\<rparr>,
      \<lparr>photo_id = ''2'', dataUrl = ''b'', timestamp = 2\<rparr>,
      \<lparr>photo_id = ''3'', dataUrl = ''c'', timestamp = 3\<rparr>]"

definition example_style :: "rat \<Rightarrow> rat \<Rightarrow> style" where
  "example_style b sp = \<lparr>borderWidth = b, spacing = sp, cornerRadius = 0\<rparr>"

section \<open>The capture sequencer and the screens\<close>

record state =
  currentScreen :: Screen
  selectedTemplate :: "Template option"
  capturedPhotos :: "CapturedPhoto list"
  currentPhotoIndex :: int
  countdown :: "int option"
  selectedBackground :: string
  templateStyle :: style
  timers :: nat

text \<open>
  \<open>timers\<close> is the browser's side of \<open>setInterval\<close>/\<open>clearInterval\<close>: how many
  intervals armed by \<open>startCountdown\<close> are not yet cleared. \<open>finalImageUrl\<close> is
  written only by the preview effect and read only by the preview screen; it is left out.
\<close>

definition initial :: state where
  "initial =
     \<lparr>currentScreen = Screen_start, selectedTemplate = None, capturedPhotos = [],
      currentPhotoIndex = 0, countdown = None, selectedBackground = ''white'',
      templateStyle = \<lparr>borderWidth = 2, spacing = 4, cornerRadius = 0\<rparr>, timers = 0\<rparr>"

text \<open>\<open>Date.now().toString()\<close>: the decimal digits of the clock.\<close>

fun digits :: "nat \<Rightarrow> string" where
  "digits n =
     (if n < 10 then [char_of (48 + n)]
      else digits (n div 10) @ [char_of (48 + n mod 10)])"

declare digits.simps [simp del]

definition toString :: "int \<Rightarrow> string" where
  "toString i = (if i < 0 then CHR ''-'' # digits (nat (- i)) else digits (nat i))"

text \<open>
  What \<open>capturePhoto\<close> reads from the browser: whether the two refs and the 2d context
  are there, the encoded frame, and the clock at its two readings.
\<close>

record capture_env =
  videoRef :: bool
  canvasRef :: bool
  captureCtx :: bool
  frame :: string
  now_id :: int
  now_timestamp :: int

definition capturePhoto :: "capture_env \<Rightarrow> state \<Rightarrow> state" where
  "capturePhoto env st =
     (if \<not> videoRef env \<or> \<not> canvasRef env then st
      else if \<not> captureCtx env then st
      else
        (let newPhoto = \<lparr>photo_id = toString (now_id env), dataUrl = frame env,
               timestamp = now_timestamp env\<rparr>
         in st\<lparr>capturedPhotos := capturedPhotos st @ [newPhoto],
               currentPhotoIndex := currentPhotoIndex st + 1\<rparr>))"

text \<open>\<open>startCountdown\<close> (lines 108 to 120): it sets the countdown and arms an interval.\<close>

definition startCountdown :: "state \<Rightarrow> state" where
  "startCountdown st = st\<lparr>countdown := Some 3, timers := timers st + 1\<rparr>"

text \<open>
  One firing of an armed interval (lines 111 to 118). With no interval armed there is no
  callback to run.
\<close>

definition tick :: "capture_env \<Rightarrow> state \<Rightarrow> state" where
  "tick env st =
     (if timers st = 0 then st
      else
        (case countdown st of
           None \<Rightarrow> (capturePhoto env (st\<lparr>timers := timers st - 1\<rparr>))\<lparr>countdown := None\<rparr>
         | Some prev \<Rightarrow>
             if prev \<le> 1 then (capturePhoto env (st\<lparr>timers := timers st - 1\<rparr>))\<lparr>countdown := None\<rparr>
             else st\<lparr>countdown := Some (prev - 1)\<rparr>))"

definition resetPhotos :: "state \<Rightarrow> state" where
  "resetPhotos st = st\<lparr>capturedPhotos := [], currentPhotoIndex := 0\<rparr>"

text \<open>\<open>remainingPhotos\<close> of \<open>renderCameraScreen\<close> (lines 351 and 352).\<close>

definition remainingPhotos :: "state \<Rightarrow> int" where
  "remainingPhotos st =
     (case find (\<lambda>t. Some (t_id t) = selectedTemplate st) templates of
        Some t \<Rightarrow> photoCount t - int (length (capturedPhotos st))
      | None \<Rightarrow> 0)"

text \<open>
  What the user and the browser can do. A button acts only on the screen that renders it
  and only while it is not disabled; the sliders give whole numbers up to their
  \<open>max\<close>.
\<close>

datatype event =
  Click_start_session
  | Click_template Template
  | Click_back
  | Click_take_photo
  | Click_retry
  | Click_preview
  | Click_back_to_templates
  | Slide_borderWidth nat
  | Slide_spacing nat
  | Select_background string
  | Click_new_session
  | Timer_fires capture_env

fun step :: "state \<Rightarrow> event \<Rightarrow> state" where
  "step st Click_start_session =
     (if currentScreen st = Screen_start then st\<lparr>currentScreen := Screen_template\<rparr> else st)"
| "step st (Click_template t) =
     (if currentScreen st = Screen_template
      then st\<lparr>selectedTemplate := Some t, currentScreen := Screen_camera\<rparr> else st)"
| "step st Click_back =
     (if currentScreen st = Screen_template then st\<lparr>currentScreen := Screen_start\<rparr> else st)"
| "step st Click_take_photo =
     (if currentScreen st = Screen_camera \<and> \<not> (countdown st \<noteq> None \<or> remainingPhotos st = 0)
      then startCountdown st else st)"
| "step st Click_retry =
     (if currentScreen st = Screen_camera then resetPhotos st else st)"
| "step st Click_preview =
     (if currentScreen st = Screen_camera \<and> remainingPhotos st = 0
      then st\<lparr>currentScreen := Screen_preview\<rparr> else st)"
| "step st Click_back_to_templates =
     (if currentScreen st = Screen_camera then st\<lparr>currentScreen := Screen_template\<rparr> else st)"
| "step st (Slide_borderWidth v) =
     (if currentScreen st = Screen_preview \<and> v \<le> 10
      then st\<lparr>templateStyle := (templateStyle st)\<lparr>borderWidth := of_nat v\<rparr>\<rparr> else st)"
| "step st (Slide_spacing v) =
     (if currentScreen st = Screen_preview \<and> v \<le> 20
      then st\<lparr>templateStyle := (templateStyle st)\<lparr>spacing := of_nat v\<rparr>\<rparr> else st)"
| "step st (Select_background b) =
     (if currentScreen st = Screen_preview \<and> b \<in> set (map b_id backgrounds)
      then st\<lparr>selectedBackground := b\<rparr> else st)"
| "step st Click_new_session =
     (if currentScreen st = Screen_preview
      then st\<lparr>capturedPhotos := [], currentPhotoIndex := 0, selectedTemplate := None,
              currentScreen := Screen_start\<rparr>
      else st)"
| "step st (Timer_fires env) = tick env st"

definition run :: "state \<Rightarrow> event list \<Rightarrow> state" where
  "run st evs = foldl step st evs"

text \<open>Inputs for the examples: a camera that delivers, and one press of TAKE PHOTO
  followed by the three firings of its interval.\<close>

definition example_camera :: capture_env where
  "example_camera =
     \<lparr>videoRef = True, canvasRef = True, captureCtx = True, frame = ''f'',
      now_id = 7, now_timestamp = 7\<rparr>"

definition take_photo :: "event list" where
  "take_photo =
     [Click_take_photo, Timer_fires example_camera, Timer_fires example_camera,
      Timer_fires example_camera]"

text \<open>The required photo count of a template, read from the table \<open>templates\<close>.\<close>

definition requiredCount :: "Template \<Rightarrow> int" where
  "requiredCount t =
     (case find (\<lambda>e. t_id e = t) templates of Some e \<Rightarrow> photoCount e | None \<Rightarrow> 0)"

text \<open>
  The bound of the capture sequencer: one interval is armed exactly while a countdown runs,
  no countdown runs on the preview screen, without a template there are no photos, and
  with a template the sequence is no longer than the template requires, and shorter while
  a countdown runs.
\<close>

definition within_bound :: "state \<Rightarrow> bool" where
  "within_bound st =
     (timers st = (if countdown st = None then 0 else 1) \<and>
      (currentScreen st = Screen_preview \<longrightarrow> countdown st = None) \<and>
      (case selectedTemplate st of
         None \<Rightarrow> capturedPhotos st = [] \<and> countdown st = None
       | Some t \<Rightarrow>
           int (length (capturedPhotos st)) \<le> requiredCount t \<and>
           (countdown st \<noteq> None \<longrightarrow> int (length (capturedPhotos st)) < requiredCount t)))"

text \<open>A run of events in which a template is selected only while no photo is held.\<close>

fun no_reselection :: "state \<Rightarrow> event list \<Rightarrow> bool" where
  "no_reselection st [] = True"
| "no_reselection st (e # es) =
     ((case e of Click_template t \<Rightarrow> capturedPhotos st = [] | _ \<Rightarrow> True) \<and>
      no_reselection (step st e) es)"

text \<open>
  The rows of the right half of a collage: the distinct vertical offsets of the photos at
  the indices \<open>1..n\<close>.
\<close>

definition collage_rows :: "nat \<Rightarrow> rat \<Rightarrow> rat \<Rightarrow> rat \<Rightarrow> rat list" where
  "collage_rows n cw ch sp = remdups (map (\<lambda>i. r_y (placement Collage i cw ch sp)) [1..<Suc n])"

section \<open>Placement geometry\<close>

text \<open>
  C7. Strip template: for every index \<open>i\<close> and every spacing \<open>s\<close> the placement
  rectangle has width \<open>canvasWidth - 4 s\<close>, height \<open>(canvasHeight - 8 s) / 3\<close>,
  \<open>x = 2 s\<close> and \<open>y = 2 s + (height + 2 s) i\<close>; with spacing 4 on the 1600 by 2400
  canvas the height is \<open>(2400 - 32) / 3\<close>.
\<close>

theorem strip_placement:
  "r_width (placement Strip i cw ch s) = cw - 4 * s \<and>
   r_height (placement Strip i cw ch s) = (ch - 8 * s) / 3 \<and>
   r_x (placement Strip i cw ch s) = 2 * s \<and>
   r_y (placement Strip i cw ch s) =
     2 * s + (r_height (placement Strip i cw ch s) + 2 * s) * of_nat i \<and>
   r_height (placement Strip i 1600 2400 4) = (2400 - 32) / 3"
  by (simp add: Let_def mult.commute)

text \<open>
  Three photos on the strip with no border at spacing 4: what is on the canvas when the
  last decode has completed.
\<close>

lemma strip_scenario:
  "surface (deliver (generateFinalImage example_env (Some Strip) example_photos ''white''
       (example_style 0 4)) [0, 1, 2]) =
     Some \<lparr>c_width = 1600, c_height = 2400,
       calls = [FillRect (Colour ''#ffffff'') 0 0 1600 2400,
                DrawImage ''a'' 8 8 1584 ((2400 - 32) / 3),
                DrawImage ''b'' 8 (8 + ((2400 - 32) / 3 + 8)) 1584 ((2400 - 32) / 3),
                DrawImage ''c'' 8 (8 + ((2400 - 32) / 3 + 8) * 2) 1584 ((2400 - 32) / 3)]\<rparr>"
  by (simp add: generateFinalImage_def example_env_def example_photos_def applyBackground_def
      backgrounds_def deliver_def surface_def completions_def onload_def Let_def
      fillRect_def drawImage_def example_style_def)

lemma collage_offsets_distinct:
  assumes "0 \<le> s" "s \<le> 20"
  shows "inj_on (\<lambda>i. r_y (placement Collage i 1600 1600 s)) {1..<Suc n}"
proof (rule inj_onI)
  fix i k :: nat
  assume i: "i \<in> {1..<Suc n}" and k: "k \<in> {1..<Suc n}"
    and eq: "r_y (placement Collage i 1600 1600 s) = r_y (placement Collage k 1600 1600 s)"
  have "(1600 - s * 6) / 2 + s * 2 = 800 - s" by (simp add: field_simps)
  then have g: "(1600 - s * 6) / 2 + s * 2 \<noteq> 0" using assms by linarith
  from i k eq have "((1600 - s * 6) / 2 + s * 2) * (of_nat i - 1)
      = ((1600 - s * 6) / 2 + s * 2) * (of_nat k - 1)"
    by (simp add: Let_def)
  with g have "(of_nat i :: rat) - 1 = of_nat k - 1"
    by (simp only: mult_cancel_left) simp
  then show "i = k" by simp
qed

lemma collage_rows_length:
  assumes "0 \<le> s" "s \<le> 20"
  shows "length (collage_rows n 1600 1600 s) = n"
proof -
  have "distinct (map (\<lambda>i. r_y (placement Collage i 1600 1600 s)) [1..<Suc n])"
  proof (subst distinct_map, intro conjI)
    show "distinct [1..<Suc n]" by simp
    show "inj_on (\<lambda>i. r_y (placement Collage i 1600 1600 s)) (set [1..<Suc n])"
      using collage_offsets_distinct [OF assms, of n] by (simp only: set_upt)
  qed
  then have "remdups (map (\<lambda>i. r_y (placement Collage i 1600 1600 s)) [1..<Suc n])
      = map (\<lambda>i. r_y (placement Collage i 1600 1600 s)) [1..<Suc n]"
    by (rule distinct_remdups_id)
  then have "length (collage_rows n 1600 1600 s) = length [1..<Suc n]"
    by (simp only: collage_rows_def length_map)
  then show ?thesis by (simp only: length_upt)
qed

text \<open>
  C5, as the code has it. Collage template: the photo at index 0 takes the left half at
  full height; every photo at an index \<open>i > 0\<close> takes the right half in a row of the
  fixed height \<open>(canvasHeight - 6 s) / 2\<close>, at the offset given by \<open>i - 1\<close>. The right
  half is cut in two whatever the length of the sequence: the row of index 2 ends at the
  bottom margin, and the photos at \<open>1..n\<close> stand in \<open>n\<close> rows.
\<close>

theorem collage_placement:
  "placement Collage 0 cw ch s =
     \<lparr>r_x = 2 * s, r_y = 2 * s, r_width = cw / 2 - 2 * s, r_height = ch - 4 * s\<rparr> \<and>
   (0 < i \<longrightarrow> placement Collage i cw ch s =
     \<lparr>r_x = cw / 2 + s, r_y = 2 * s + ((ch - 6 * s) / 2 + 2 * s) * (of_nat i - 1),
      r_width = cw / 2 - 2 * s, r_height = (ch - 6 * s) / 2\<rparr>) \<and>
   r_y (placement Collage 2 cw ch s) + r_height (placement Collage 2 cw ch s) = ch - 2 * s \<and>
   (0 \<le> s \<and> s \<le> 20 \<longrightarrow> length (collage_rows n 1600 1600 s) = n)"
proof -
  have geo: "r_y (placement Collage 2 cw ch s) + r_height (placement Collage 2 cw ch s) = ch - 2 * s"
    by (simp add: Let_def field_simps)
  show ?thesis using collage_rows_length [of s n] geo by (simp add: Let_def mult.commute)
qed

text \<open>
The collage at spacing 4: the two rows of the right half.
\<close>

theorem collage_placement_witness:
  "placement Collage 1 1600 1600 4 = \<lparr>r_x = 804, r_y = 8, r_width = 792, r_height = 788\<rparr> \<and>
   placement Collage 2 1600 1600 4 = \<lparr>r_x = 804, r_y = 804, r_width = 792, r_height = 788\<rparr> \<and>
   length (collage_rows 2 1600 1600 4) = 2"
  using collage_placement [of 1600 1600 4 1 2] collage_placement [of 1600 1600 4 2 2]
  by simp

text \<open>
  C5 as worded fails: with the three photos the collage requires (\<open>n = 2\<close>),
  the photos at the indices 1 and 2 stand in two rows, not in \<open>n - 1 = 1\<close>.
\<close>

theorem collage_rows_counterexample:
  "length (collage_rows 2 1600 1600 4) \<noteq> 2 - 1"
  by (simp add: collage_rows_def Let_def upt_rec)

section \<open>What a load handler draws\<close>

lemma applyBackground_size:
  "c_width (applyBackground env bg cv) = c_width cv \<and> c_height (applyBackground env bg cv) = c_height cv"
  by (simp add: applyBackground_def fillRect_def Let_def split: option.splits)

lemma onload_calls:
  "index < length (j_photos j) \<Longrightarrow>
     calls (j_canvas (onload j index)) = calls (j_canvas j) @ handler_calls j index"
  by (simp add: onload_def Let_def fillRect_def drawImage_def handler_calls_def photo_rect_def
      border_rect_def del: placement.simps)

lemma onload_keeps:
  "j_template (onload j i) = j_template j \<and> j_photos (onload j i) = j_photos j \<and>
   j_style (onload j i) = j_style j \<and> totalImages (onload j i) = totalImages j \<and>
   c_width (j_canvas (onload j i)) = c_width (j_canvas j) \<and>
   c_height (j_canvas (onload j i)) = c_height (j_canvas j)"
  by (simp add: onload_def Let_def fillRect_def drawImage_def del: placement.simps)

lemma completions_snoc: "completions j (order @ [i]) = onload (completions j order) i"
  by (simp add: completions_def)

lemma completions_keeps:
  "j_template (completions j order) = j_template j \<and> j_photos (completions j order) = j_photos j \<and>
   j_style (completions j order) = j_style j \<and> totalImages (completions j order) = totalImages j \<and>
   c_width (j_canvas (completions j order)) = c_width (j_canvas j) \<and>
   c_height (j_canvas (completions j order)) = c_height (j_canvas j)"
  unfolding completions_def
  by (induction order arbitrary: j) (simp_all add: onload_keeps)

lemma handler_calls_completions:
  "handler_calls (completions j order) i = handler_calls j i"
  by (simp add: handler_calls_def photo_rect_def border_rect_def completions_keeps del: placement.simps)

lemma completions_calls:
  "set order \<subseteq> {..<length (j_photos j)} \<Longrightarrow>
     calls (j_canvas (completions j order)) =
       calls (j_canvas j) @ concat (map (handler_calls j) order)"
proof (induction order rule: rev_induct)
  case Nil
  show ?case by (simp add: completions_def)
next
  case (snoc i order)
  then have "i < length (j_photos (completions j order))"
    by (simp add: completions_keeps)
  from onload_calls [OF this] snoc show ?case
    by (simp add: completions_snoc handler_calls_completions)
qed

lemma generateFinalImage_Loading:
  assumes "photos \<noteq> []" and "ctx2d env"
  shows "\<exists>j. generateFinalImage env (Some t) photos bg st = Loading j \<and>
     j_template j = t \<and> j_photos j = photos \<and> j_style j = st \<and> loadedCount j = 0 \<and>
     totalImages j = length photos \<and> promise j = None \<and>
     c_width (j_canvas j) = 1600 \<and> c_height (j_canvas j) = (if t = Strip then 2400 else 1600)"
  using assms by (simp add: generateFinalImage_def Let_def applyBackground_size)

text \<open>
  C6. Border: the handler of a photo first fills, in black, the photo's rectangle moved up
  and left by \<open>2 b\<close> and grown by \<open>4 b\<close> in width and height, when the border width
  \<open>b\<close> is positive, and then draws the photo on top; when \<open>b\<close> is not positive it
  draws the photo only. This holds for every template, index and spacing.
\<close>

theorem border_rectangle:
  assumes "index < length (j_photos j)"
  shows "calls (j_canvas (onload j index)) =
     calls (j_canvas j) @
     (if borderWidth (j_style j) > 0 then
        [FillRect (Colour ''#000000'')
           (r_x (photo_rect j index) - 2 * borderWidth (j_style j))
           (r_y (photo_rect j index) - 2 * borderWidth (j_style j))
           (r_width (photo_rect j index) + 4 * borderWidth (j_style j))
           (r_height (photo_rect j index) + 4 * borderWidth (j_style j))]
      else []) @
     [DrawImage (dataUrl (j_photos j ! index))
        (r_x (photo_rect j index)) (r_y (photo_rect j index))
        (r_width (photo_rect j index)) (r_height (photo_rect j index))]"
  using assms
  by (simp add: onload_def Let_def fillRect_def drawImage_def photo_rect_def mult.commute
      del: placement.simps)

text \<open>
The second photo of a strip at spacing 4, with border width 2 and with border width 0.
\<close>

theorem border_rectangle_witness:
  "calls (j_canvas (onload
      \<lparr>j_template = Strip, j_photos = example_photos, j_style = example_style 2 4,
       j_canvas = \<lparr>c_width = 1600, c_height = 2400, calls = []\<rparr>,
       loadedCount = 0, totalImages = 3, promise = None\<rparr> 1)) =
     [FillRect (Colour ''#000000'') 4 (2404 / 3) 1592 (2392 / 3),
      DrawImage ''b'' 8 (2416 / 3) 1584 (2368 / 3)] \<and>
   calls (j_canvas (onload
      \<lparr>j_template = Strip, j_photos = example_photos, j_style = example_style 0 4,
       j_canvas = \<lparr>c_width = 1600, c_height = 2400, calls = []\<rparr>,
       loadedCount = 0, totalImages = 3, promise = None\<rparr> 1)) =
     [DrawImage ''b'' 8 (2416 / 3) 1584 (2368 / 3)]"
  using border_rectangle [of 1 "\<lparr>j_template = Strip, j_photos = example_photos, j_style = example_style 2 4,
       j_canvas = \<lparr>c_width = 1600, c_height = 2400, calls = []\<rparr>,
       loadedCount = 0, totalImages = 3, promise = None\<rparr>"]
    border_rectangle [of 1 "\<lparr>j_template = Strip, j_photos = example_photos, j_style = example_style 0 4,
       j_canvas = \<lparr>c_width = 1600, c_height = 2400, calls = []\<rparr>,
       loadedCount = 0, totalImages = 3, promise = None\<rparr>"]
  by (simp add: example_photos_def example_style_def photo_rect_def Let_def)

lemma promise_size:
  assumes "promise j = None \<or> (\<exists>px. promise j = Some (Jpeg (c_width (j_canvas j)) (c_height (j_canvas j)) px))"
  shows "promise (completions j order) = None \<or>
     (\<exists>px. promise (completions j order) = Some (Jpeg (c_width (j_canvas j)) (c_height (j_canvas j)) px))"
  using assms
proof (induction order rule: rev_induct)
  case Nil
  then show ?case by (simp add: completions_def)
next
  case (snoc i order)
  then have ih: "promise (completions j order) = None \<or>
     (\<exists>px. promise (completions j order) = Some (Jpeg (c_width (j_canvas j)) (c_height (j_canvas j)) px))"
    by simp
  have w: "c_width (j_canvas (completions j order)) = c_width (j_canvas j)"
    and h: "c_height (j_canvas (completions j order)) = c_height (j_canvas j)"
    by (simp_all add: completions_keeps)
  from ih show ?case
    using w h
    by (auto simp add: completions_snoc onload_def Let_def resolve_def toDataURL_def
        fillRect_def drawImage_def simp del: placement.simps)
qed

text \<open>
  C9. Canvas size: whenever \<open>generateFinalImage\<close> has a canvas, before and after any
  load handlers, it is 1600 wide and 2400 high for the strip and 1600 high for the grid,
  the collage and the single photo; the picture it resolves to has the same size.
\<close>

theorem canvas_size:
  "(\<forall>cv. surface (deliver (generateFinalImage env (Some t) photos bg st) order) = Some cv \<longrightarrow>
      c_width cv = 1600 \<and> c_height cv = (if t = Strip then 2400 else 1600)) \<and>
   (\<forall>w h px. settled (deliver (generateFinalImage env (Some t) photos bg st) order) = Some (Jpeg w h px) \<longrightarrow>
      w = 1600 \<and> h = (if t = Strip then 2400 else 1600))"
proof (cases "photos \<noteq> [] \<and> ctx2d env")
  case False
  then have "generateFinalImage env (Some t) photos bg st = Settled Empty_url"
    by (auto simp add: generateFinalImage_def)
  then show ?thesis by (simp add: deliver_def surface_def settled_def)
next
  case True
  with generateFinalImage_Loading [of photos env t bg st]
  obtain j where j: "generateFinalImage env (Some t) photos bg st = Loading j"
    and f: "promise j = None" "c_width (j_canvas j) = 1600"
      "c_height (j_canvas j) = (if t = Strip then 2400 else 1600)"
    by blast
  from f(1) have "promise j = None \<or> (\<exists>px. promise j = Some (Jpeg (c_width (j_canvas j)) (c_height (j_canvas j)) px))"
    by simp
  from promise_size [OF this, of order] f
  have "promise (completions j order) = None \<or>
     (\<exists>px. promise (completions j order) = Some (Jpeg 1600 (if t = Strip then 2400 else 1600) px))"
    by simp
  then show ?thesis
    using f by (auto simp add: j deliver_def surface_def settled_def completions_keeps)
qed

text \<open>
Three photos, one decode complete: the strip canvas and the grid canvas.
\<close>

theorem canvas_size_witness:
  "(\<exists>cv. surface (deliver (generateFinalImage example_env (Some Strip) example_photos ''white''
       (example_style 2 4)) [1]) = Some cv \<and> c_width cv = 1600 \<and> c_height cv = 2400) \<and>
   (\<exists>cv. surface (deliver (generateFinalImage example_env (Some Grid) example_photos ''white''
       (example_style 2 4)) [1]) = Some cv \<and> c_width cv = 1600 \<and> c_height cv = 1600)"
proof -
  have ok: "example_photos \<noteq> []" "ctx2d example_env"
    by (simp_all add: example_photos_def example_env_def)
  from generateFinalImage_Loading [OF ok, of Strip "''white''" "example_style 2 4"]
  obtain j where j: "generateFinalImage example_env (Some Strip) example_photos ''white''
       (example_style 2 4) = Loading j" by blast
  from generateFinalImage_Loading [OF ok, of Grid "''white''" "example_style 2 4"]
  obtain k where k: "generateFinalImage example_env (Some Grid) example_photos ''white''
       (example_style 2 4) = Loading k" by blast
  have strip: "\<exists>cv. surface (deliver (generateFinalImage example_env (Some Strip) example_photos ''white''
       (example_style 2 4)) [1]) = Some cv \<and> c_width cv = 1600 \<and> c_height cv = 2400"
    using canvas_size [of example_env Strip example_photos "''white''" "example_style 2 4" "[1]"]
    by (simp add: j deliver_def surface_def)
  have grid: "\<exists>cv. surface (deliver (generateFinalImage example_env (Some Grid) example_photos ''white''
       (example_style 2 4)) [1]) = Some cv \<and> c_width cv = 1600 \<and> c_height cv = 1600"
    using canvas_size [of example_env Grid example_photos "''white''" "example_style 2 4" "[1]"]
    by (simp add: k deliver_def surface_def)
  from strip grid show ?thesis by simp
qed

section \<open>Empty results\<close>

lemma promise_never_empty:
  assumes "promise j \<noteq> Some Empty_url"
  shows "promise (completions j order) \<noteq> Some Empty_url"
  using assms
proof (induction order rule: rev_induct)
  case Nil
  then show ?case by (simp add: completions_def)
next
  case (snoc i order)
  then have "promise (completions j order) \<noteq> Some Empty_url" by simp
  then show ?case
    by (auto simp add: completions_snoc onload_def Let_def resolve_def toDataURL_def
        split: option.splits simp del: placement.simps)
qed

text \<open>
  C8. \<open>generateFinalImage\<close> resolves to the empty result exactly when no template is
  selected, the photo sequence is empty, or the 2d context is unavailable. In each of
  these cases it resolves at once and draws nothing; in every other case the promise is
  pending when the executor returns and no load handler ever resolves it to the empty
  result.
\<close>

theorem empty_result_cases:
  "(settled (generateFinalImage env t photos bg st) = Some Empty_url
      \<longleftrightarrow> (t = None \<or> photos = [] \<or> \<not> ctx2d env)) \<and>
   (settled (deliver (generateFinalImage env t photos bg st) order) = Some Empty_url
      \<longleftrightarrow> (t = None \<or> photos = [] \<or> \<not> ctx2d env)) \<and>
   (t = None \<or> photos = [] \<or> \<not> ctx2d env \<longrightarrow>
      generateFinalImage env t photos bg st = Settled Empty_url \<and>
      drawn (generateFinalImage env t photos bg st) = [] \<and>
      surface (generateFinalImage env t photos bg st) = None) \<and>
   (\<not> (t = None \<or> photos = [] \<or> \<not> ctx2d env) \<longrightarrow>
      settled (generateFinalImage env t photos bg st) = None)"
proof (cases "t = None \<or> photos = [] \<or> \<not> ctx2d env")
  case True
  then have "generateFinalImage env t photos bg st = Settled Empty_url"
    by (auto simp add: generateFinalImage_def split: option.splits)
  with True show ?thesis by (simp add: settled_def deliver_def drawn_def surface_def)
next
  case False
  then obtain tt where t: "t = Some tt" and ok: "photos \<noteq> []" "ctx2d env" by auto
  from generateFinalImage_Loading [OF ok, of tt bg st]
  obtain j where j: "generateFinalImage env (Some tt) photos bg st = Loading j"
    and p: "promise j = None" by blast
  from p have "promise j \<noteq> Some Empty_url" by simp
  then have "promise (completions j order) \<noteq> Some Empty_url" by (rule promise_never_empty)
  with False p show ?thesis by (simp add: t j settled_def deliver_def)
qed

text \<open>
The three degenerate cases, and a composite that is left pending.
\<close>

theorem empty_result_cases_witness:
  "settled (generateFinalImage example_env None example_photos ''white'' (example_style 2 4)) = Some Empty_url \<and>
   settled (generateFinalImage example_env (Some Grid) [] ''white'' (example_style 2 4)) = Some Empty_url \<and>
   settled (generateFinalImage (example_env\<lparr>ctx2d := False\<rparr>) (Some Grid) example_photos ''white'' (example_style 2 4)) = Some Empty_url \<and>
   drawn (generateFinalImage (example_env\<lparr>ctx2d := False\<rparr>) (Some Grid) example_photos ''white'' (example_style 2 4)) = [] \<and>
   settled (generateFinalImage example_env (Some Grid) example_photos ''white'' (example_style 2 4)) = None"
proof -
  have env: "ctx2d example_env" "\<not> ctx2d (example_env\<lparr>ctx2d := False\<rparr>)"
    by (simp_all add: example_env_def)
  have photos: "example_photos \<noteq> []" by (simp add: example_photos_def)
  show ?thesis
    using empty_result_cases [of example_env None example_photos "''white''" "example_style 2 4" "[]"]
      empty_result_cases [of example_env "Some Grid" "[]" "''white''" "example_style 2 4" "[]"]
      empty_result_cases [of "example_env\<lparr>ctx2d := False\<rparr>" "Some Grid" example_photos "''white''" "example_style 2 4" "[]"]
      empty_result_cases [of example_env "Some Grid" example_photos "''white''" "example_style 2 4" "[]"]
      env photos
    by (simp add: settled_def drawn_def)
qed

section \<open>The join on the load handlers\<close>

lemma onload_count:
  "i < length (j_photos j) \<Longrightarrow> loadedCount (onload j i) = loadedCount j + 1"
  by (simp add: onload_def Let_def del: placement.simps)

lemma onload_promise:
  "i < length (j_photos j) \<Longrightarrow> promise j = None \<Longrightarrow>
     promise (onload j i) =
       (if loadedCount j + 1 = totalImages j then Some (toDataURL (j_canvas (onload j i))) else None)"
  by (simp add: onload_def Let_def resolve_def del: placement.simps)

lemma completions_count:
  "set order \<subseteq> {..<length (j_photos j)} \<Longrightarrow>
     loadedCount (completions j order) = loadedCount j + length order"
proof (induction order rule: rev_induct)
  case Nil
  show ?case by (simp add: completions_def)
next
  case (snoc i order)
  then have "i < length (j_photos (completions j order))"
    by (simp add: completions_keeps)
  with snoc show ?case
    by (simp add: completions_snoc onload_count)
qed

lemma completions_pending:
  assumes "promise j = None" and "set order \<subseteq> {..<length (j_photos j)}"
    and "loadedCount j + length order < totalImages j"
  shows "promise (completions j order) = None"
  using assms
proof (induction order rule: rev_induct)
  case Nil
  then show ?case by (simp add: completions_def)
next
  case (snoc i order)
  then have pend: "promise (completions j order) = None" by simp
  from snoc.prems have i: "i < length (j_photos (completions j order))"
    by (simp add: completions_keeps)
  from snoc.prems have cnt: "loadedCount (completions j order) = loadedCount j + length order"
    by (simp add: completions_count)
  from snoc.prems cnt have "loadedCount (completions j order) + 1 \<noteq> totalImages (completions j order)"
    by (simp add: completions_keeps)
  with pend i show ?case
    by (simp add: completions_snoc onload_promise)
qed

lemma completions_resolved:
  assumes "promise j = None" and "set order \<subseteq> {..<length (j_photos j)}"
    and "loadedCount j + length order = totalImages j" and "order \<noteq> []"
  shows "promise (completions j order) = Some (toDataURL (j_canvas (completions j order)))"
proof -
  from assms(4) obtain pre i where order: "order = pre @ [i]"
    by (cases order rule: rev_cases) auto
  from assms order have pend: "promise (completions j pre) = None"
    by (intro completions_pending) auto
  from assms order have i: "i < length (j_photos (completions j pre))"
    by (simp add: completions_keeps)
  from assms order have "loadedCount (completions j pre) + 1 = totalImages (completions j pre)"
    by (simp add: completions_count completions_keeps)
  with pend i show ?thesis
    by (simp add: order completions_snoc onload_promise)
qed

lemma distinct_below_length:
  assumes "distinct order" and "set order \<subseteq> {..<n}"
  shows "length order \<le> n \<and> (length order = n \<longleftrightarrow> set order = {..<n})"
proof -
  have c: "card (set order) = length order" using assms(1) by (rule distinct_card)
  have "card (set order) \<le> card {..<n}" using assms(2) by (intro card_mono) auto
  then have le: "length order \<le> n" using c by simp
  have "length order = n \<longleftrightarrow> set order = {..<n}"
  proof
    assume "length order = n"
    then have "card (set order) = card {..<n}" using c by simp
    with assms(2) show "set order = {..<n}" by (intro card_subset_eq) auto
  next
    assume "set order = {..<n}"
    then show "length order = n" using c by simp
  qed
  with le show ?thesis by simp
qed

text \<open>
  C4, as the code has it. With a template selected, a non-empty sequence of \<open>N\<close> photos
  and a 2d context, after the load handlers of any set of distinct photos have run, in any
  order, the promise is pending exactly while fewer than \<open>N\<close> handlers have run. At the
  \<open>N\<close>th completion it is resolved with the encoding of the canvas, and by then every
  photo of the sequence has been drawn at the rectangle of its index.
\<close>

theorem resolves_on_last_completion:
  assumes "photos \<noteq> []" and "ctx2d env"
    and "distinct order" and "set order \<subseteq> {..<length photos}"
  shows "(settled (deliver (generateFinalImage env (Some t) photos bg st) order) = None
            \<longleftrightarrow> length order < length photos) \<and>
         (length order = length photos \<longrightarrow>
            (\<exists>cv. surface (deliver (generateFinalImage env (Some t) photos bg st) order) = Some cv \<and>
               settled (deliver (generateFinalImage env (Some t) photos bg st) order)
                 = Some (toDataURL cv) \<and>
               (\<forall>i<length photos.
                  DrawImage (dataUrl (photos ! i))
                    (r_x (placement t i (c_width cv) (c_height cv) (spacing st)))
                    (r_y (placement t i (c_width cv) (c_height cv) (spacing st)))
                    (r_width (placement t i (c_width cv) (c_height cv) (spacing st)))
                    (r_height (placement t i (c_width cv) (c_height cv) (spacing st)))
                  \<in> set (calls cv))))"
proof -
  from generateFinalImage_Loading [OF assms(1,2), of t bg st]
  obtain j where j: "generateFinalImage env (Some t) photos bg st = Loading j"
    and f: "j_template j = t" "j_photos j = photos" "j_style j = st" "loadedCount j = 0"
      "totalImages j = length photos" "promise j = None"
    by blast
  have sub: "set order \<subseteq> {..<length (j_photos j)}" using assms(4) f by simp
  from distinct_below_length [OF assms(3,4)] have le: "length order \<le> length photos"
    and all: "length order = length photos \<longleftrightarrow> set order = {..<length photos}" by simp_all
  have pending: "promise (completions j order) = None" if "length order < length photos"
    using that f sub by (intro completions_pending) simp_all
  have nonempty: "order \<noteq> []" if "length order = length photos"
    using that assms(1) by auto
  have resolved: "promise (completions j order) = Some (toDataURL (j_canvas (completions j order)))"
    if "length order = length photos"
    using that f sub nonempty by (intro completions_resolved) simp_all
  have drawn_all: "DrawImage (dataUrl (photos ! i))
        (r_x (placement t i (c_width (j_canvas (completions j order))) (c_height (j_canvas (completions j order))) (spacing st)))
        (r_y (placement t i (c_width (j_canvas (completions j order))) (c_height (j_canvas (completions j order))) (spacing st)))
        (r_width (placement t i (c_width (j_canvas (completions j order))) (c_height (j_canvas (completions j order))) (spacing st)))
        (r_height (placement t i (c_width (j_canvas (completions j order))) (c_height (j_canvas (completions j order))) (spacing st)))
      \<in> set (calls (j_canvas (completions j order)))"
    if "length order = length photos" "i < length photos" for i
  proof -
    from that all have "i \<in> set order" by simp
    then have "set (handler_calls j i) \<subseteq> set (calls (j_canvas (completions j order)))"
      using completions_calls [OF sub] by auto
    then show ?thesis
      using f by (auto simp add: handler_calls_def photo_rect_def Let_def completions_keeps
          simp del: placement.simps)
  qed
  have first: "settled (deliver (generateFinalImage env (Some t) photos bg st) order) = None
            \<longleftrightarrow> length order < length photos"
  proof (cases "length order < length photos")
    case True
    with pending show ?thesis by (simp add: j deliver_def settled_def)
  next
    case False
    with le have "length order = length photos" by simp
    from resolved [OF this] False show ?thesis by (simp add: j deliver_def settled_def)
  qed
  show ?thesis
    using first resolved drawn_all
    by (simp add: j deliver_def settled_def surface_def del: placement.simps)
qed

text \<open>
Three photos completing in the order 2, 0, 1: pending after two, resolved after the third.
\<close>

theorem resolves_on_last_completion_witness:
  "settled (deliver (generateFinalImage example_env (Some Strip) example_photos ''white''
       (example_style 2 4)) [2, 0]) = None \<and>
   settled (deliver (generateFinalImage example_env (Some Strip) example_photos ''white''
       (example_style 2 4)) [2, 0, 1]) \<noteq> None"
proof -
  have ok: "example_photos \<noteq> []" "ctx2d example_env"
    by (simp_all add: example_photos_def example_env_def)
  have a: "distinct [2, 0 :: nat]" "set [2, 0 :: nat] \<subseteq> {..<length example_photos}"
    by (simp_all add: example_photos_def)
  have b: "distinct [2, 0, 1 :: nat]" "set [2, 0, 1 :: nat] \<subseteq> {..<length example_photos}"
    by (simp_all add: example_photos_def)
  have len: "length example_photos = 3" by (simp add: example_photos_def)
  from resolves_on_last_completion [OF ok a, of Strip "''white''" "example_style 2 4"]
    resolves_on_last_completion [OF ok b, of Strip "''white''" "example_style 2 4"]
  show ?thesis by (simp add: len)
qed

text \<open>
  C4 as worded fails: with a template selected and three photos but no 2d context, the
  promise is resolved, with the empty result, before any decode has completed.
\<close>

theorem resolves_without_context_counterexample:
  "example_photos \<noteq> [] \<and>
   settled (deliver (generateFinalImage (example_env\<lparr>ctx2d := False\<rparr>) (Some Strip)
       example_photos ''white'' (example_style 2 4)) []) = Some Empty_url"
  by (simp add: generateFinalImage_def deliver_def settled_def example_env_def example_photos_def)

text \<open>
  C10. If the decode of some photo of the sequence never completes, so that its load handler
  never runs, the promise stays pending whatever other handlers run: nothing but the
  \<open>N\<close>th load resolves it, and there is no error handler and no timeout.
\<close>

theorem failed_decode_never_settles:
  assumes "photos \<noteq> []" and "ctx2d env"
    and "i < length photos" and "i \<notin> set order"
    and "distinct order" and "set order \<subseteq> {..<length photos}"
  shows "settled (deliver (generateFinalImage env (Some t) photos bg st) order) = None"
proof -
  from generateFinalImage_Loading [OF assms(1,2), of t bg st]
  obtain j where j: "generateFinalImage env (Some t) photos bg st = Loading j"
    and f: "j_photos j = photos" "loadedCount j = 0" "totalImages j = length photos"
      "promise j = None"
    by blast
  from assms(3,4) have "set order \<noteq> {..<length photos}" by auto
  with distinct_below_length [OF assms(5,6)] have "length order < length photos" by simp
  with f assms(6) have "promise (completions j order) = None"
    by (intro completions_pending) simp_all
  then show ?thesis by (simp add: j deliver_def settled_def)
qed

text \<open>
Three photos of which the one at index 1 never loads.
\<close>

theorem failed_decode_never_settles_witness:
  "settled (deliver (generateFinalImage example_env (Some Grid) example_photos ''white''
       (example_style 2 4)) [2, 0]) = None"
proof -
  have ok: "example_photos \<noteq> []" "ctx2d example_env"
    by (simp_all add: example_photos_def example_env_def)
  have a: "1 < length example_photos" "1 \<notin> set [2, 0 :: nat]"
     "distinct [2, 0 :: nat]" "set [2, 0 :: nat] \<subseteq> {..<length example_photos}"
    by (simp_all add: example_photos_def)
  from failed_decode_never_settles [OF ok a] show ?thesis .
qed

section \<open>The order of the completions\<close>

text \<open>
  How much of a pixel a rectangle covers, what one handler leaves in a pixel, and what the
  handlers leave in it one after the other.
\<close>

lemma overlap_range: "0 \<le> overlap a len k \<and> overlap a len k \<le> 1"
  by (simp add: overlap_def min_def max_def)

lemma overlap_zero:
  "overlap a len k = 0 \<longleftrightarrow> \<not> (0 < len \<and> a < of_int k + 1 \<and> of_int k < a + len)"
  by (auto simp add: overlap_def min_def max_def)

lemma overlap_one:
  "overlap a len k = 1 \<longleftrightarrow> a \<le> of_int k \<and> of_int k + 1 \<le> a + len"
  by (auto simp add: overlap_def min_def max_def)

lemma product_one:
  fixes u v :: rat
  assumes "0 \<le> u" "u \<le> 1" "0 \<le> v" "v \<le> 1"
  shows "u * v = 1 \<longleftrightarrow> u = 1 \<and> v = 1"
proof
  assume uv: "u * v = 1"
  from assms have "u * v \<le> u * 1" by (intro mult_left_mono) simp_all
  with uv assms have u: "u = 1" by simp
  with uv show "u = 1 \<and> v = 1" by simp
qed simp

lemma touches_iff:
  "touches r m n \<longleftrightarrow>
     0 < r_width r \<and> r_x r < of_int m + 1 \<and> of_int m < r_x r + r_width r \<and>
     0 < r_height r \<and> r_y r < of_int n + 1 \<and> of_int n < r_y r + r_height r"
  by (auto simp add: touches_def coverage_def overlap_zero)

lemma fills_iff:
  "fills r m n \<longleftrightarrow>
     r_x r \<le> of_int m \<and> of_int m + 1 \<le> r_x r + r_width r \<and>
     r_y r \<le> of_int n \<and> of_int n + 1 \<le> r_y r + r_height r"
  using overlap_range [of "r_x r" "r_width r" m] overlap_range [of "r_y r" "r_height r" n]
  by (simp add: fills_def coverage_def product_one overlap_one)

lemma fills_touches: "fills r m n \<Longrightarrow> touches r m n"
  by (simp add: fills_iff touches_iff)


































text \<open>
  A strip with border width 4 and spacing 4 is outside the condition: the border of the
  first photo ends, and the second photo begins, at \<open>y = 2416 / 3\<close>, inside the pixel row
  805. In that row the second photo is mixed into black when the photos load in sequence,
  and the border of the first photo is mixed over it when the second photo loads first.
\<close>

lemma strip_fractional_edge:
  "(let j = \<lparr>j_template = Strip, j_photos = example_photos, j_style = example_style 4 4,
       j_canvas = \<lparr>c_width = 1600, c_height = 2400,
         calls = [FillRect (Colour ''#ffffff'') 0 0 1600 2400]\<rparr>,
       loadedCount = 0, totalImages = 3, promise = None\<rparr>
    in pixel (j_canvas (completions j [0, 1, 2])) 100 805 =
         Blend (PhotoSample ''b'' ((100 + 1 / 2 - 8) / 1584) ((805 + 1 / 2 - 2416 / 3) / (2368 / 3)))
           (2 / 3) (Css ''#000000'') \<and>
       pixel (j_canvas (completions j [1, 0, 2])) 100 805 =
         Blend (Css ''#000000'') (1 / 3)
           (Blend (PhotoSample ''b'' ((100 + 1 / 2 - 8) / 1584) ((805 + 1 / 2 - 2416 / 3) / (2368 / 3)))
              (2 / 3) (Css ''#000000'')))"
proof -
  let ?j = "\<lparr>j_template = Strip, j_photos = example_photos, j_style = example_style 4 4,
       j_canvas = \<lparr>c_width = 1600, c_height = 2400,
         calls = [FillRect (Colour ''#ffffff'') 0 0 1600 2400]\<rparr>,
       loadedCount = 0, totalImages = 3, promise = None\<rparr>"
  have "calls (j_canvas (completions ?j [0, 1, 2])) =
      [FillRect (Colour ''#ffffff'') 0 0 1600 2400,
       FillRect (Colour ''#000000'') 0 0 1600 (2416 / 3), DrawImage ''a'' 8 8 1584 (2368 / 3),
       FillRect (Colour ''#000000'') 0 (2392 / 3) 1600 (2416 / 3),
       DrawImage ''b'' 8 (2416 / 3) 1584 (2368 / 3),
       FillRect (Colour ''#000000'') 0 (4784 / 3) 1600 (2416 / 3),
       DrawImage ''c'' 8 (4808 / 3) 1584 (2368 / 3)]"
    by (subst completions_calls)
       (simp_all add: handler_calls_def photo_rect_def border_rect_def example_photos_def
          example_style_def Let_def)
  then have a: "pixel (j_canvas (completions ?j [0, 1, 2])) 100 805 =
         Blend (PhotoSample ''b'' ((100 + 1 / 2 - 8) / 1584) ((805 + 1 / 2 - 2416 / 3) / (2368 / 3)))
           (2 / 3) (Css ''#000000'')"
    by (simp add: pixel_def completions_keeps coverage_def overlap_def mix_def)
  have "calls (j_canvas (completions ?j [1, 0, 2])) =
      [FillRect (Colour ''#ffffff'') 0 0 1600 2400,
       FillRect (Colour ''#000000'') 0 (2392 / 3) 1600 (2416 / 3),
       DrawImage ''b'' 8 (2416 / 3) 1584 (2368 / 3),
       FillRect (Colour ''#000000'') 0 0 1600 (2416 / 3), DrawImage ''a'' 8 8 1584 (2368 / 3),
       FillRect (Colour ''#000000'') 0 (4784 / 3) 1600 (2416 / 3),
       DrawImage ''c'' 8 (4808 / 3) 1584 (2368 / 3)]"
    by (subst completions_calls)
       (simp_all add: handler_calls_def photo_rect_def border_rect_def example_photos_def
          example_style_def Let_def)
  then have "pixel (j_canvas (completions ?j [1, 0, 2])) 100 805 =
         Blend (Css ''#000000'') (1 / 3)
           (Blend (PhotoSample ''b'' ((100 + 1 / 2 - 8) / 1584) ((805 + 1 / 2 - 2416 / 3) / (2368 / 3)))
              (2 / 3) (Css ''#000000''))"
    by (simp add: pixel_def completions_keeps coverage_def overlap_def mix_def)
  with a show ?thesis unfolding Let_def by (intro conjI)
qed

section \<open>The capture sequencer\<close>

lemma requiredCount_values:
  "requiredCount Strip = 3" "requiredCount Grid = 4" "requiredCount Collage = 3"
  "requiredCount Single = 1"
  by (simp_all add: requiredCount_def templates_def)

lemma remainingPhotos_Some:
  "selectedTemplate st = Some t \<Longrightarrow>
     remainingPhotos st = requiredCount t - int (length (capturedPhotos st))"
  by (cases t) (simp_all add: remainingPhotos_def requiredCount_def templates_def)

lemma remainingPhotos_None:
  "selectedTemplate st = None \<Longrightarrow> remainingPhotos st = 0"
  by (simp add: remainingPhotos_def templates_def)

lemma capturePhoto_length:
  "length (capturedPhotos (capturePhoto env st)) \<le> Suc (length (capturedPhotos st))"
  by (simp add: capturePhoto_def Let_def)

lemma capturePhoto_keeps:
  "countdown (capturePhoto env st) = countdown st \<and> timers (capturePhoto env st) = timers st \<and>
   selectedTemplate (capturePhoto env st) = selectedTemplate st \<and>
   currentScreen (capturePhoto env st) = currentScreen st"
  by (simp add: capturePhoto_def Let_def)

lemma tick_within_bound:
  assumes "within_bound st"
  shows "within_bound (tick env st)"
proof (cases "selectedTemplate st")
  case None
  with assms show ?thesis by (simp add: within_bound_def tick_def)
next
  case (Some t)
  show ?thesis
  proof (cases "countdown st")
    case None
    with assms show ?thesis by (simp add: within_bound_def tick_def)
  next
    case (Some prev)
    show ?thesis
    proof (cases "prev \<le> 1")
      case False
      with assms Some show ?thesis by (simp add: within_bound_def tick_def split: option.splits)
    next
      case True
      from assms Some \<open>selectedTemplate st = Some t\<close>
      have lt: "int (length (capturedPhotos st)) < requiredCount t" and tm: "timers st = 1"
        and scr: "currentScreen st \<noteq> Screen_preview"
        by (auto simp add: within_bound_def)
      have "length (capturedPhotos (capturePhoto env (st\<lparr>timers := timers st - 1\<rparr>)))
          \<le> Suc (length (capturedPhotos (st\<lparr>timers := timers st - 1\<rparr>)))"
        by (rule capturePhoto_length)
      with lt have le: "int (length (capturedPhotos (capturePhoto env (st\<lparr>timers := timers st - 1\<rparr>))))
          \<le> requiredCount t" by simp
      from True Some tm have "tick env st = (capturePhoto env (st\<lparr>timers := timers st - 1\<rparr>))\<lparr>countdown := None\<rparr>"
        by (simp add: tick_def)
      with le tm \<open>selectedTemplate st = Some t\<close> show ?thesis
        by (simp add: within_bound_def capturePhoto_keeps)
    qed
  qed
qed

lemma step_within_bound:
  assumes "within_bound st"
    and "\<And>t. e = Click_template t \<Longrightarrow> capturedPhotos st = []"
  shows "within_bound (step st e)"
proof (cases e)
  case (Timer_fires env)
  with assms(1) show ?thesis by (simp add: tick_within_bound)
next
  case (Click_template t)
  with assms have "capturedPhotos st = []" by simp
  with assms(1) Click_template show ?thesis
    by (cases t) (auto simp add: within_bound_def requiredCount_values split: option.splits)
next
  case Click_take_photo
  show ?thesis
  proof (cases "selectedTemplate st")
    case None
    with assms(1) Click_take_photo show ?thesis
      by (simp add: remainingPhotos_None)
  next
    case (Some t)
    with assms(1) Click_take_photo show ?thesis
      by (auto simp add: within_bound_def remainingPhotos_Some startCountdown_def)
  qed
next
  case Click_preview
  show ?thesis
  proof (cases "selectedTemplate st")
    case None
    with assms(1) Click_preview show ?thesis
      by (auto simp add: within_bound_def)
  next
    case (Some t)
    with assms(1) Click_preview show ?thesis
      by (auto simp add: within_bound_def remainingPhotos_Some)
  qed
next
  case Click_retry
  with assms(1) show ?thesis
    by (cases "selectedTemplate st"; cases "the (selectedTemplate st)")
       (auto simp add: within_bound_def resetPhotos_def requiredCount_values)
next
  case Click_new_session
  with assms(1) show ?thesis by (auto simp add: within_bound_def)
qed (use assms(1) in \<open>auto simp add: within_bound_def split: option.splits\<close>)

lemma run_within_bound:
  "within_bound st \<Longrightarrow> no_reselection st es \<Longrightarrow> within_bound (run st es)"
proof (induction es arbitrary: st)
  case Nil
  then show ?case by (simp add: run_def)
next
  case (Cons e es)
  from Cons.prems have "within_bound (step st e)"
    by (intro step_within_bound) (auto split: event.splits)
  moreover from Cons.prems have "no_reselection (step st e) es" by simp
  ultimately have "within_bound (run (step st e) es)" by (rule Cons.IH)
  then show ?case by (simp add: run_def)
qed

text \<open>
  As long as a template is selected only while no photo is held, the sequence never
  exceeds what the active template requires.
\<close>

lemma bound_without_reselection:
  assumes "no_reselection initial es" and "selectedTemplate (run initial es) = Some t"
  shows "int (length (capturedPhotos (run initial es))) \<le> requiredCount t"
proof -
  have "within_bound initial" by (simp add: within_bound_def initial_def)
  from run_within_bound [OF this assms(1)] assms(2) show ?thesis
    by (simp add: within_bound_def)
qed

text \<open>
  C1. The bound on the photo sequence does not survive a change of template: selecting a
  template keeps the photos already captured. Four photos taken for the grid, BACK TO
  TEMPLATES, then the single template: the sequence holds four photos while the active
  template requires one. TAKE PHOTO is then enabled (\<open>remainingPhotos\<close> is \<open>-3\<close>, not
  0), and a fifth photo is captured.
\<close>

theorem template_switch_keeps_photos:
  "(let st = run initial ([Click_start_session, Click_template Grid] @ take_photo @ take_photo @
              take_photo @ take_photo @ [Click_back_to_templates, Click_template Single])
    in currentScreen st = Screen_camera \<and> selectedTemplate st = Some Single \<and>
       requiredCount Single = 1 \<and> length (capturedPhotos st) = 4 \<and>
       remainingPhotos st = - 3 \<and> length (capturedPhotos (run st take_photo)) = 5)"
  by (simp add: run_def take_photo_def example_camera_def initial_def remainingPhotos_def
      requiredCount_def templates_def startCountdown_def tick_def capturePhoto_def Let_def)

text \<open>
  C2 as worded fails: \<open>startCountdown\<close> has no guard of its own, so it is
  not a no-op while a countdown is running.
\<close>

theorem startCountdown_reentrant_counterexample:
  "\<not> (\<forall>st. countdown st \<noteq> None \<longrightarrow> startCountdown st = st)"
proof
  assume "\<forall>st. countdown st \<noteq> None \<longrightarrow> startCountdown st = st"
  then have "countdown (initial\<lparr>countdown := Some 2, timers := 1\<rparr>) \<noteq> None \<longrightarrow>
      startCountdown (initial\<lparr>countdown := Some 2, timers := 1\<rparr>)
        = initial\<lparr>countdown := Some 2, timers := 1\<rparr>"
    by (rule spec)
  then have "countdown (startCountdown (initial\<lparr>countdown := Some 2, timers := 1\<rparr>)) = Some 2"
    by simp
  then show False by (simp add: startCountdown_def)
qed

text \<open>
  What a second invocation does during a countdown: it sets the countdown back to 3 and
  arms a second interval, and each of the two intervals captures a photo when it ends.
\<close>

lemma reentrant_startCountdown_trace:
  "(let st = run initial [Click_start_session, Click_template Strip, Click_take_photo,
                Timer_fires example_camera];
        st2 = startCountdown st;
        st3 = run st2 [Timer_fires example_camera, Timer_fires example_camera,
                Timer_fires example_camera, Timer_fires example_camera]
    in countdown st = Some 2 \<and> timers st = 1 \<and> countdown st2 = Some 3 \<and> timers st2 = 2 \<and>
       length (capturedPhotos st3) = 2 \<and> timers st3 = 0)"
  by (simp add: run_def example_camera_def initial_def remainingPhotos_def
      templates_def startCountdown_def tick_def capturePhoto_def Let_def)

text \<open>
  C2, as the code has it. While a countdown is running the TAKE PHOTO button is disabled,
  so pressing it changes nothing. A countdown started by \<open>startCountdown\<close> and left to
  its three firings shows 2, then 1, captures nothing before the third firing, and at the
  third firing calls \<open>capturePhoto\<close> once, clears its interval and sets the countdown
  back to not counting: one photo is appended when the video, the canvas and the context are
  there, none otherwise.
\<close>

theorem countdown_cycle:
  "(countdown st \<noteq> None \<longrightarrow> step st Click_take_photo = st) \<and>
   (let s1 = tick e1 (startCountdown st); s2 = tick e2 s1; s3 = tick e3 s2
    in countdown s1 = Some 2 \<and> capturedPhotos s1 = capturedPhotos st \<and>
       countdown s2 = Some 1 \<and> capturedPhotos s2 = capturedPhotos st \<and>
       countdown s3 = None \<and> timers s3 = timers st \<and>
       s3 = (capturePhoto e3 st)\<lparr>countdown := None\<rparr> \<and>
       (videoRef e3 \<and> canvasRef e3 \<and> captureCtx e3 \<longrightarrow>
          capturedPhotos s3 = capturedPhotos st @
            [\<lparr>photo_id = toString (now_id e3), dataUrl = frame e3,
              timestamp = now_timestamp e3\<rparr>]) \<and>
       (\<not> (videoRef e3 \<and> canvasRef e3 \<and> captureCtx e3) \<longrightarrow>
          capturedPhotos s3 = capturedPhotos st))"
  by (simp add: startCountdown_def tick_def capturePhoto_def Let_def)

text \<open>
A press during a countdown, and a full countdown from the camera screen.
\<close>

theorem countdown_cycle_witness:
  "(let st = run initial [Click_start_session, Click_template Strip, Click_take_photo,
                Timer_fires example_camera];
        fresh = run initial [Click_start_session, Click_template Strip]
    in countdown st = Some 2 \<and> step st Click_take_photo = st \<and>
       countdown fresh = None \<and>
       capturedPhotos (tick example_camera (tick example_camera (tick example_camera
          (startCountdown fresh)))) =
         [\<lparr>photo_id = toString 7, dataUrl = ''f'', timestamp = 7\<rparr>])"
proof -
  let ?st = "run initial [Click_start_session, Click_template Strip, Click_take_photo,
                Timer_fires example_camera]"
  let ?fresh = "run initial [Click_start_session, Click_template Strip]"
  have a: "countdown ?st = Some 2"
    by (simp add: run_def example_camera_def initial_def remainingPhotos_def
      templates_def startCountdown_def tick_def capturePhoto_def Let_def)
  have b: "countdown ?fresh = None" "capturedPhotos ?fresh = []"
    by (simp_all add: run_def initial_def)
  have c: "videoRef example_camera \<and> canvasRef example_camera \<and> captureCtx example_camera"
     "now_id example_camera = 7" "frame example_camera = ''f''" "now_timestamp example_camera = 7"
    by (simp_all add: example_camera_def)
  have s1: "step ?st Click_take_photo = ?st"
    using countdown_cycle [where st = ?st, THEN conjunct1] a by simp
  have s2: "capturedPhotos (tick example_camera (tick example_camera (tick example_camera
          (startCountdown ?fresh)))) =
         [\<lparr>photo_id = toString 7, dataUrl = ''f'', timestamp = 7\<rparr>]"
    using countdown_cycle [where st = ?fresh and ?e1.0 = example_camera
        and ?e2.0 = example_camera and ?e3.0 = example_camera, THEN conjunct2] b c
    by (simp add: Let_def capturePhoto_def)
  from a b s1 s2 show ?thesis by (simp add: Let_def)
qed

end
